theory Spec2Isabelle
  imports Complex_Main "HOL-Library.Multiset" "HOL-Library.Char_ord"
    "HOL-Library.List_Lexorder" "HOL-Library.Product_Lexorder" "HOL-Library.Monad_Syntax"
begin

section \<open>Tensors\<close>

text \<open>
  A tensor is one element of a batch: a list of channels, each channel a list of samples
  along the time axis. Every layer of the network acts on the elements of a batch
  independently (batch normalisation with its statistics fixed, as at inference), so the
  batch axis is left out. Samples are real numbers: rounding is not modelled.
\<close>

type_synonym tensor = "real list list"

definition time_len :: "tensor \<Rightarrow> nat" where
  "time_len x = (case x of [] \<Rightarrow> 0 | r # _ \<Rightarrow> length r)"

definition has_shape :: "nat \<Rightarrow> nat \<Rightarrow> tensor \<Rightarrow> bool" where
  "has_shape c l x \<longleftrightarrow> length x = c \<and> list_all (\<lambda>r. length r = l) x"

section \<open>nn.Conv1d\<close>

text \<open>
  The library's one-dimensional convolution, with the hyper-parameters the source passes
  to it. The weight has shape (out_channels, in_channels, kernel_size). A call fails
  (\<open>None\<close>) on a wrong channel count, on hyper-parameters the library rejects, and when
  the padded input is shorter than the dilated kernel.
\<close>

record Conv1d =
  cv_in_channels :: nat
  cv_out_channels :: nat
  cv_kernel_size :: int
  cv_stride :: int
  cv_padding :: int
  cv_dilation :: int
  cv_weight :: "real list list list"
  cv_bias :: "real list"

definition conv_out_len :: "nat \<Rightarrow> int \<Rightarrow> int \<Rightarrow> int \<Rightarrow> int \<Rightarrow> nat option" where
  "conv_out_len l k s p d =
     (if k < 1 \<or> s < 1 \<or> d < 1 \<or> p < 0 then None
      else if int l + 2 * p < d * (k - 1) + 1 then None
      else Some (nat ((int l + 2 * p - d * (k - 1) - 1) div s + 1)))"

definition zero_pad :: "nat \<Rightarrow> real list \<Rightarrow> real list" where
  "zero_pad p xs = replicate p 0 @ xs @ replicate p 0"

definition conv1d :: "Conv1d \<Rightarrow> tensor \<Rightarrow> tensor option" where
  "conv1d cv x =
     (if length x = cv_in_channels cv \<and> has_shape (length x) (time_len x) x
      then (case conv_out_len (time_len x) (cv_kernel_size cv) (cv_stride cv)
                   (cv_padding cv) (cv_dilation cv) of
              None \<Rightarrow> None
            | Some n \<Rightarrow>
                Some (map (\<lambda>oc. map (\<lambda>t. cv_bias cv ! oc +
                        (\<Sum>ic\<leftarrow>[0..<cv_in_channels cv]. \<Sum>j\<leftarrow>[0..<nat (cv_kernel_size cv)].
                           cv_weight cv ! oc ! ic ! j *
                           zero_pad (nat (cv_padding cv)) (x ! ic)
                             ! (t * nat (cv_stride cv) + j * nat (cv_dilation cv))))
                      [0..<n]) [0..<cv_out_channels cv]))
      else None)"

section \<open>Conv1dSame\<close>

record Conv1dSame =
  cut_last_element :: bool
  padding :: int
  conv :: Conv1d

definition Conv1dSame_init ::
  "nat \<Rightarrow> nat \<Rightarrow> int \<Rightarrow> int \<Rightarrow> int \<Rightarrow> real list list list \<Rightarrow> real list \<Rightarrow> Conv1dSame" where
  "Conv1dSame_init in_channels out_channels kernel_size stride dilation w b =
     (let p = \<lceil>real_of_int (1 - stride + dilation * (kernel_size - 1)) / 2\<rceil> in
      \<lparr>cut_last_element = (kernel_size mod 2 = 0 \<and> stride = 1 \<and> dilation mod 2 = 1),
       padding = p,
       conv = \<lparr>cv_in_channels = in_channels, cv_out_channels = out_channels,
               cv_kernel_size = kernel_size, cv_stride = stride, cv_padding = p + 1,
               cv_dilation = dilation, cv_weight = w, cv_bias = b\<rparr>\<rparr>)"

definition Conv1dSame_forward :: "Conv1dSame \<Rightarrow> tensor \<Rightarrow> tensor option" where
  "Conv1dSame_forward m x =
     (if cut_last_element m then map_option (map butlast) (conv1d (conv m) x)
      else conv1d (conv m) x)"

section \<open>nn.ConvTranspose1d, nn.BatchNorm1d, relu, cat, softmax\<close>

text \<open>
  The transposed convolution, with dilation 1 as the source leaves it. The weight has
  shape (in_channels, out_channels, kernel_size). Input sample \<open>t\<close> and kernel tap \<open>j\<close>
  contribute to position \<open>t * stride + j\<close> of the full result, of which \<open>padding\<close>
  positions are cut at both ends and to which \<open>output_padding\<close> positions are added at
  the right end.
\<close>

record ConvTranspose1d =
  ct_in_channels :: nat
  ct_out_channels :: nat
  ct_kernel_size :: int
  ct_stride :: int
  ct_padding :: int
  ct_output_padding :: int
  ct_weight :: "real list list list"
  ct_bias :: "real list"

definition conv_transpose_out_len :: "nat \<Rightarrow> int \<Rightarrow> int \<Rightarrow> int \<Rightarrow> int \<Rightarrow> nat option" where
  "conv_transpose_out_len l k s p op =
     (if k < 1 \<or> s < 1 \<or> p < 0 \<or> op < 0 \<or> s \<le> op then None
      else if (int l - 1) * s - 2 * p + (k - 1) + op + 1 < 1 then None
      else Some (nat ((int l - 1) * s - 2 * p + (k - 1) + op + 1)))"

definition conv_transpose1d :: "ConvTranspose1d \<Rightarrow> tensor \<Rightarrow> tensor option" where
  "conv_transpose1d ct x =
     (if length x = ct_in_channels ct \<and> has_shape (length x) (time_len x) x
      then (case conv_transpose_out_len (time_len x) (ct_kernel_size ct) (ct_stride ct)
                   (ct_padding ct) (ct_output_padding ct) of
              None \<Rightarrow> None
            | Some n \<Rightarrow>
                Some (map (\<lambda>oc. map (\<lambda>i. ct_bias ct ! oc +
                        (\<Sum>ic\<leftarrow>[0..<ct_in_channels ct]. \<Sum>t\<leftarrow>[0..<time_len x].
                           \<Sum>j\<leftarrow>[0..<nat (ct_kernel_size ct)].
                             if t * nat (ct_stride ct) + j = i + nat (ct_padding ct)
                             then x ! ic ! t * ct_weight ct ! ic ! oc ! j else 0))
                      [0..<n]) [0..<ct_out_channels ct]))
      else None)"

text \<open>Batch normalisation with its running statistics fixed.\<close>

record BatchNorm1d =
  bn_num_features :: nat
  bn_running_mean :: "real list"
  bn_running_var :: "real list"
  bn_eps :: real
  bn_weight :: "real list"
  bn_bias :: "real list"

definition batch_norm :: "BatchNorm1d \<Rightarrow> tensor \<Rightarrow> tensor option" where
  "batch_norm bn x =
     (if length x = bn_num_features bn
      then Some (map (\<lambda>c. map (\<lambda>v. (v - bn_running_mean bn ! c)
                                   / sqrt (bn_running_var bn ! c + bn_eps bn)
                                   * bn_weight bn ! c + bn_bias bn ! c) (x ! c))
                  [0..<length x])
      else None)"

definition relu :: "tensor \<Rightarrow> tensor" where
  "relu x = map (map (max 0)) x"

text \<open>Concatenation along the channel axis: the time lengths must agree.\<close>

definition cat :: "tensor \<Rightarrow> tensor \<Rightarrow> tensor option" where
  "cat a b = (if time_len a = time_len b then Some (a @ b) else None)"

text \<open>Softmax along the channel axis (dim = 1).\<close>

definition softmax :: "tensor \<Rightarrow> tensor" where
  "softmax x =
     map (\<lambda>c. map (\<lambda>t. exp (x ! c ! t) / (\<Sum>k\<leftarrow>[0..<length x]. exp (x ! k ! t)))
                [0..<time_len x])
         [0..<length x]"

section \<open>PhaseNet\<close>

text \<open>
  The learned parameters, by name, as the library's state dictionary holds them: the
  convolution kernels and the per-channel vectors.
\<close>

record state_dict =
  kernels :: "string \<Rightarrow> real list list list"
  vectors :: "string \<Rightarrow> real list"

definition nn_Conv1d :: "nat \<Rightarrow> nat \<Rightarrow> int \<Rightarrow> state_dict \<Rightarrow> string \<Rightarrow> Conv1d" where
  "nn_Conv1d cin cout k sd name =
     \<lparr>cv_in_channels = cin, cv_out_channels = cout, cv_kernel_size = k, cv_stride = 1,
      cv_padding = 0, cv_dilation = 1,
      cv_weight = kernels sd (name @ ''.weight''), cv_bias = vectors sd (name @ ''.bias'')\<rparr>"

definition nn_ConvTranspose1d ::
  "nat \<Rightarrow> nat \<Rightarrow> int \<Rightarrow> int \<Rightarrow> int \<Rightarrow> int \<Rightarrow> state_dict \<Rightarrow> string \<Rightarrow> ConvTranspose1d" where
  "nn_ConvTranspose1d cin cout k s p op sd name =
     \<lparr>ct_in_channels = cin, ct_out_channels = cout, ct_kernel_size = k, ct_stride = s,
      ct_padding = p, ct_output_padding = op,
      ct_weight = kernels sd (name @ ''.weight''), ct_bias = vectors sd (name @ ''.bias'')\<rparr>"

definition nn_BatchNorm1d :: "nat \<Rightarrow> state_dict \<Rightarrow> string \<Rightarrow> BatchNorm1d" where
  "nn_BatchNorm1d n sd name =
     \<lparr>bn_num_features = n,
      bn_running_mean = vectors sd (name @ ''.running_mean''),
      bn_running_var = vectors sd (name @ ''.running_var''),
      bn_eps = 1 / 100000,
      bn_weight = vectors sd (name @ ''.weight''), bn_bias = vectors sd (name @ ''.bias'')\<rparr>"

record PhaseNet =
  in_samples :: nat
  in_channels :: nat
  classes :: nat
  kernel_size :: int
  stride :: int
  inc :: Conv1d
  in_bn :: BatchNorm1d
  conv1 :: Conv1dSame
  bnd1 :: BatchNorm1d
  conv2 :: Conv1dSame
  bnd2 :: BatchNorm1d
  conv3 :: Conv1dSame
  bnd3 :: BatchNorm1d
  conv4 :: Conv1dSame
  bnd4 :: BatchNorm1d
  up1 :: ConvTranspose1d
  bnu1 :: BatchNorm1d
  up2 :: ConvTranspose1d
  bnu2 :: BatchNorm1d
  up3 :: ConvTranspose1d
  bnu3 :: BatchNorm1d
  up4 :: ConvTranspose1d
  bnu4 :: BatchNorm1d
  out :: ConvTranspose1d

definition PhaseNet_init :: "nat \<Rightarrow> nat \<Rightarrow> state_dict \<Rightarrow> PhaseNet" where
  "PhaseNet_init cin ncls sd =
     (let ks = 7; st = 4;
          c1 = Conv1dSame_init 8 11 ks st 1
                 (kernels sd ''conv1.conv.weight'') (vectors sd ''conv1.conv.bias'');
          c2 = Conv1dSame_init 11 16 ks st 1
                 (kernels sd ''conv2.conv.weight'') (vectors sd ''conv2.conv.bias'');
          c3 = Conv1dSame_init 16 22 ks st 1
                 (kernels sd ''conv3.conv.weight'') (vectors sd ''conv3.conv.bias'');
          c4 = Conv1dSame_init 22 32 ks st 1
                 (kernels sd ''conv4.conv.weight'') (vectors sd ''conv4.conv.bias'')
      in \<lparr>in_samples = 3001, in_channels = cin, classes = ncls, kernel_size = ks, stride = st,
          inc = nn_Conv1d cin 8 1 sd ''inc'',
          in_bn = nn_BatchNorm1d 8 sd ''in_bn'',
          conv1 = c1, bnd1 = nn_BatchNorm1d 11 sd ''bnd1'',
          conv2 = c2, bnd2 = nn_BatchNorm1d 16 sd ''bnd2'',
          conv3 = c3, bnd3 = nn_BatchNorm1d 22 sd ''bnd3'',
          conv4 = c4, bnd4 = nn_BatchNorm1d 32 sd ''bnd4'',
          up1 = nn_ConvTranspose1d 32 22 ks st (padding c4) 0 sd ''up1'',
          bnu1 = nn_BatchNorm1d 22 sd ''bnu1'',
          up2 = nn_ConvTranspose1d 44 16 ks st (padding c3) 1 sd ''up2'',
          bnu2 = nn_BatchNorm1d 16 sd ''bnu2'',
          up3 = nn_ConvTranspose1d 32 11 ks st (padding c2) 0 sd ''up3'',
          bnu3 = nn_BatchNorm1d 11 sd ''bnu3'',
          up4 = nn_ConvTranspose1d 22 8 ks st 3 0 sd ''up4'',
          bnu4 = nn_BatchNorm1d 8 sd ''bnu4'',
          out = nn_ConvTranspose1d 16 ncls 1 1 0 0 sd ''out''\<rparr>)"

definition forward :: "PhaseNet \<Rightarrow> tensor \<Rightarrow> tensor option" where
  "forward m x = do {
     a \<leftarrow> conv1d (inc m) x;
     b \<leftarrow> batch_norm (in_bn m) a;
     let x_in = relu b;
     a \<leftarrow> Conv1dSame_forward (conv1 m) x_in;
     b \<leftarrow> batch_norm (bnd1 m) a;
     let x1 = relu b;
     a \<leftarrow> Conv1dSame_forward (conv2 m) x1;
     b \<leftarrow> batch_norm (bnd2 m) a;
     let x2 = relu b;
     a \<leftarrow> Conv1dSame_forward (conv3 m) x2;
     b \<leftarrow> batch_norm (bnd3 m) a;
     let x3 = relu b;
     a \<leftarrow> Conv1dSame_forward (conv4 m) x3;
     b \<leftarrow> batch_norm (bnd4 m) a;
     let x4 = relu b;
     a \<leftarrow> conv_transpose1d (up1 m) x4;
     b \<leftarrow> batch_norm (bnu1 m) a;
     x \<leftarrow> cat (relu b) x3;
     a \<leftarrow> conv_transpose1d (up2 m) x;
     b \<leftarrow> batch_norm (bnu2 m) a;
     x \<leftarrow> cat (relu b) x2;
     a \<leftarrow> conv_transpose1d (up3 m) x;
     b \<leftarrow> batch_norm (bnu3 m) a;
     x \<leftarrow> cat (relu b) x1;
     a \<leftarrow> conv_transpose1d (up4 m) x;
     b \<leftarrow> batch_norm (bnu4 m) a;
     x \<leftarrow> cat (relu b) x_in;
     x \<leftarrow> conv_transpose1d (out m) x;
     Some (softmax x)
   }"

text \<open>Parameters of the right shapes (and larger), all zero.\<close>

definition zero_state :: state_dict where
  "zero_state = \<lparr>kernels = (\<lambda>_. replicate 44 (replicate 44 (replicate 7 0))),
                 vectors = (\<lambda>_. replicate 44 0)\<rparr>"

section \<open>Window pre- and post-processing\<close>

text \<open>
  A two-dimensional array with its shape, so that an array with no rows or no columns
  keeps both extents. Means and standard deviations are taken over a row (the last
  axis); the standard deviation is the population one, the square root of the mean of
  the squared deviations from the mean. The mean of an empty row is 0 here, where the
  library gives a not-a-number: an empty row has no element to show it.
\<close>

record ndarray =
  nrows :: nat
  ncols :: nat
  rows :: "real list list"

definition wf_ndarray :: "ndarray \<Rightarrow> bool" where
  "wf_ndarray a \<longleftrightarrow> has_shape (nrows a) (ncols a) (rows a)"

definition np_mean :: "real list \<Rightarrow> real" where
  "np_mean xs = sum_list xs / real (length xs)"

definition np_std :: "real list \<Rightarrow> real" where
  "np_std xs = sqrt (np_mean (map (\<lambda>v. \<bar>v - np_mean xs\<bar>\<^sup>2) xs))"

definition annotate_window_pre :: "ndarray \<Rightarrow> 'a \<Rightarrow> ndarray" where
  "annotate_window_pre window argdict =
     (let means = map np_mean (rows window);
          window1 = map2 (\<lambda>r m. map (\<lambda>v. v - m) r) (rows window) means;
          std = map np_std window1;
          std1 = map (\<lambda>s. if s = 0 then 1 else s) std;
          window2 = map2 (\<lambda>r s. map (\<lambda>v. v / s) r) window1 std1
      in window\<lparr>rows := window2\<rparr>)"

definition annotate_window_post :: "ndarray \<Rightarrow> 'a \<Rightarrow> ndarray" where
  "annotate_window_post pred argdict =
     \<lparr>nrows = ncols pred, ncols = nrows pred,
      rows = map (\<lambda>j. map (\<lambda>r. r ! j) (rows pred)) [0..<ncols pred]\<rparr>"

text \<open>What the pre-processing does to one channel (used to state the results).\<close>

definition channel_norm :: "real list \<Rightarrow> real list" where
  "channel_norm r =
     (let d = map (\<lambda>v. v - np_mean r) r; s = np_std d
      in map (\<lambda>v. v / (if s = 0 then 1 else s)) d)"

section \<open>classify_aggregate\<close>

text \<open>
  An annotation trace carries its network, station, location and channel codes, its
  start time, its samples and the sample times in seconds relative to the start (what
  \<open>trace.times()\<close> returns). The trigger-onset primitive and the channel matching of
  \<open>select\<close> belong to the signal library and are parameters. An onset index outside
  the sample times is an \<open>IndexError\<close>.

  A time stamp is the signal library's \<open>UTCDateTime\<close>: a whole number of nanoseconds.
  Adding a number of seconds adds that number times \<open>10^9\<close>, rounded to a whole number
  as Python's \<open>round\<close> does (halves to the even neighbour). Two time stamps are
  compared, by \<open>==\<close> and by \<open><\<close> alike, on their nanoseconds rounded to the time
  stamp's precision, which is six decimal digits of a second unless changed: on whole
  microseconds.

  A pick is the triple (trace identity, onset time, phase). Python compares tuples item
  by item, the first pair of unequal items deciding, so picks are ordered by the key
  (trace identity, rounded onset time, phase), strings in lexicographic order of their
  characters; \<open>sorted\<close> is stable, so picks of equal keys keep their order.
\<close>

datatype error = IndexError

definition py_round :: "real \<Rightarrow> int" where
  "py_round x =
     (let f = \<lfloor>x\<rfloor>; d = x - real_of_int f
      in if d < 1 / 2 then f else if 1 / 2 < d then f + 1 else if even f then f else f + 1)"

type_synonym UTCDateTime = int

definition utc_add :: "UTCDateTime \<Rightarrow> real \<Rightarrow> UTCDateTime" where
  "utc_add t v = t + py_round (v * 1000000000)"

definition utc_key :: "UTCDateTime \<Rightarrow> int" where
  "utc_key t = py_round (real_of_int t / 1000) * 1000"

record Trace =
  network :: string
  station :: string
  location :: string
  channel :: string
  starttime :: UTCDateTime
  data :: "real list"
  times :: "real list"

type_synonym pick = "string \<times> UTCDateTime \<times> string"

definition pick_key :: "pick \<Rightarrow> string \<times> int \<times> string" where
  "pick_key p = (case p of (trace_id, t0, phase) \<Rightarrow> (trace_id, utc_key t0, phase))"

definition py_sorted :: "pick list \<Rightarrow> pick list" where
  "py_sorted picks = sort_key pick_key picks"

type_synonym trigger_fn = "real list \<Rightarrow> real \<Rightarrow> real \<Rightarrow> (nat \<times> nat) list"

definition select :: "(string \<Rightarrow> string \<Rightarrow> bool) \<Rightarrow> string \<Rightarrow> Trace list \<Rightarrow> Trace list" where
  "select matches pat annotations = filter (\<lambda>trace. matches (channel trace) pat) annotations"

definition pick_threshold :: "(string \<rightharpoonup> real) \<Rightarrow> string \<Rightarrow> real" where
  "pick_threshold argdict phase =
     (case argdict (phase @ ''_threshold'') of None \<Rightarrow> 3 / 10 | Some v \<Rightarrow> v)"

fun onset_loop :: "string \<Rightarrow> Trace \<Rightarrow> string \<Rightarrow> (nat \<times> nat) list \<Rightarrow> error + pick list" where
  "onset_loop trace_id trace phase [] = Inr []"
| "onset_loop trace_id trace phase ((s0, s1) # triggers) =
     (if s0 < length (times trace)
      then (case onset_loop trace_id trace phase triggers of
              Inl e \<Rightarrow> Inl e
            | Inr picks \<Rightarrow>
                Inr ((trace_id, utc_add (starttime trace) (times trace ! s0), phase) # picks))
      else Inl IndexError)"

fun trace_loop :: "trigger_fn \<Rightarrow> real \<Rightarrow> string \<Rightarrow> Trace list \<Rightarrow> error + pick list" where
  "trace_loop trigger_onset thr phase [] = Inr []"
| "trace_loop trigger_onset thr phase (trace # traces) =
     (let trace_id = network trace @ ''.'' @ station trace @ ''.'' @ location trace;
          triggers = trigger_onset (data trace) thr (thr / 2)
      in case onset_loop trace_id trace phase triggers of
           Inl e \<Rightarrow> Inl e
         | Inr picks \<Rightarrow>
             (case trace_loop trigger_onset thr phase traces of
                Inl e \<Rightarrow> Inl e
              | Inr rest \<Rightarrow> Inr (picks @ rest)))"

fun phase_loop ::
  "(string \<Rightarrow> string \<Rightarrow> bool) \<Rightarrow> trigger_fn \<Rightarrow> Trace list \<Rightarrow> (string \<rightharpoonup> real) \<Rightarrow> string list
     \<Rightarrow> error + pick list" where
  "phase_loop matches trigger_onset annotations argdict [] = Inr []"
| "phase_loop matches trigger_onset annotations argdict (phase # labels) =
     (if phase = ''N'' then phase_loop matches trigger_onset annotations argdict labels
      else (case trace_loop trigger_onset (pick_threshold argdict phase) phase
                   (select matches (''PhaseNet_'' @ phase) annotations) of
              Inl e \<Rightarrow> Inl e
            | Inr picks \<Rightarrow>
                (case phase_loop matches trigger_onset annotations argdict labels of
                   Inl e \<Rightarrow> Inl e
                 | Inr rest \<Rightarrow> Inr (picks @ rest))))"

definition classify_aggregate ::
  "string list \<Rightarrow> (string \<Rightarrow> string \<Rightarrow> bool) \<Rightarrow> trigger_fn \<Rightarrow> Trace list \<Rightarrow> (string \<rightharpoonup> real)
     \<Rightarrow> error + pick list" where
  "classify_aggregate labels matches trigger_onset annotations argdict =
     (case phase_loop matches trigger_onset annotations argdict labels of
        Inl e \<Rightarrow> Inl e
      | Inr picks \<Rightarrow> Inr (py_sorted picks))"

text \<open>A trigger primitive, a set of traces and helper functions used to state the results.\<close>

definition first_above :: trigger_fn where
  "first_above xs on off =
     (case xs of [] \<Rightarrow> [] | x # _ \<Rightarrow> if on \<le> x then [(0, length xs - 1)] else [])"

definition example_annotations :: "Trace list" where
  "example_annotations =
     [\<lparr>network = ''NN'', station = ''STA'', location = '''', channel = ''PhaseNet_S'',
        starttime = 7000000000, data = [1, 0], times = [0, 1]\<rparr>,
      \<lparr>network = ''NN'', station = ''STA'', location = '''', channel = ''PhaseNet_N'',
        starttime = 5000000000, data = [1, 1], times = [0, 1]\<rparr>,
      \<lparr>network = ''NN'', station = ''STA'', location = '''', channel = ''PhaseNet_P'',
        starttime = 5000000000, data = [1, 0], times = [0, 1]\<rparr>]"

text \<open>
  Two traces of one station whose onsets, at 5.0000002 s for P and 5.0000001 s for S,
  fall in the same microsecond.
\<close>

definition close_annotations :: "Trace list" where
  "close_annotations =
     [\<lparr>network = ''NN'', station = ''STA'', location = '''', channel = ''PhaseNet_S'',
        starttime = 5000000100, data = [1, 0], times = [0, 1]\<rparr>,
      \<lparr>network = ''NN'', station = ''STA'', location = '''', channel = ''PhaseNet_P'',
        starttime = 5000000200, data = [1, 0], times = [0, 1]\<rparr>]"

definition trace_id_of :: "Trace \<Rightarrow> string" where
  "trace_id_of trace = network trace @ ''.'' @ station trace @ ''.'' @ location trace"

definition trace_ok :: "trigger_fn \<Rightarrow> real \<Rightarrow> Trace \<Rightarrow> bool" where
  "trace_ok trigger_onset thr trace =
     list_all (\<lambda>q. fst q < length (times trace)) (trigger_onset (data trace) thr (thr / 2))"

definition trace_picks :: "trigger_fn \<Rightarrow> real \<Rightarrow> string \<Rightarrow> Trace \<Rightarrow> pick list" where
  "trace_picks trigger_onset thr phase trace =
     map (\<lambda>q. (trace_id_of trace, utc_add (starttime trace) (times trace ! fst q), phase))
       (trigger_onset (data trace) thr (thr / 2))"

definition phase_ok ::
  "(string \<Rightarrow> string \<Rightarrow> bool) \<Rightarrow> trigger_fn \<Rightarrow> Trace list \<Rightarrow> (string \<rightharpoonup> real) \<Rightarrow> string \<Rightarrow> bool" where
  "phase_ok matches trigger_onset annotations argdict phase =
     (phase = ''N'' \<or> list_all (trace_ok trigger_onset (pick_threshold argdict phase))
                        (select matches (''PhaseNet_'' @ phase) annotations))"

definition phase_picks ::
  "(string \<Rightarrow> string \<Rightarrow> bool) \<Rightarrow> trigger_fn \<Rightarrow> Trace list \<Rightarrow> (string \<rightharpoonup> real) \<Rightarrow> string \<Rightarrow> pick list" where
  "phase_picks matches trigger_onset annotations argdict phase =
     (if phase = ''N'' then []
      else concat (map (trace_picks trigger_onset (pick_threshold argdict phase) phase)
                     (select matches (''PhaseNet_'' @ phase) annotations)))"

section \<open>Window pre-processing in the array library's arithmetic\<close>

text \<open>
  The array library computes in floating point: every elementwise operation rounds its
  exact result to the number format, and the sum of a row is the library's reduction.
  Both are parameters, \<open>fl\<close> and \<open>fsum\<close>; with no rounding and the exact sum they give
  the real-number model above. A value that is not a finite number (a not-a-number or an
  infinity) is \<open>None\<close>. Such values arise from a division by zero and from the square
  root of a negative number; overflow is not modelled. The mean of a row is its sum
  divided by its length, so the mean of an empty row is a not-a-number. The standard
  deviation of a row is computed as the library does: the row's mean, the deviations
  from it, their squares, the mean of the squares, the square root.
\<close>

record arith =
  fl :: "real \<Rightarrow> real"
  fsum :: "real list \<Rightarrow> real"















text \<open>The demeaned channel, its variance and its divisor (used to state the results).\<close>

definition row_demean :: "arith \<Rightarrow> real list \<Rightarrow> real list" where
  "row_demean ar r = map (\<lambda>v. fl ar (v - fl ar (fsum ar r / real (length r)))) r"





section \<open>Shapes of the convolution\<close>

lemma has_shape_map_map [simp]:
  "has_shape c l (map (\<lambda>i. map (f i) [0..<l]) [0..<c])"
  by (simp add: has_shape_def list_all_iff)

lemma ceil_half: "\<lceil>real_of_int n / 2\<rceil> = (n + 1) div 2"
proof -
  have "\<lceil>real_of_int n / real_of_int 2\<rceil> = - (- n div 2)"
    by (rule ceiling_divide_eq_div)
  then have "\<lceil>real_of_int n / 2\<rceil> = - (- n div 2)" by simp
  also have "- (- n div 2) = (n + 1) div 2" by presburger
  finally show ?thesis .
qed

lemma has_shape_time_len: "has_shape c l x \<Longrightarrow> 0 < c \<Longrightarrow> time_len x = l"
  by (cases x) (simp_all add: has_shape_def time_len_def)

lemma conv1d_Some:
  assumes "has_shape c l x" and "0 < c" and "cv_in_channels cv = c"
    and "conv_out_len l (cv_kernel_size cv) (cv_stride cv) (cv_padding cv) (cv_dilation cv) = Some n"
  shows "\<exists>y. conv1d cv x = Some y \<and> has_shape (cv_out_channels cv) n y"
proof -
  have "time_len x = l" using assms(1,2) by (rule has_shape_time_len)
  moreover have "length x = c" using assms(1) by (simp add: has_shape_def)
  ultimately show ?thesis using assms by (simp add: conv1d_def)
qed

lemma Conv1dSame_init_sel:
  "cut_last_element (Conv1dSame_init cin cout k s d w b) \<longleftrightarrow> k mod 2 = 0 \<and> s = 1 \<and> d mod 2 = 1"
  "padding (Conv1dSame_init cin cout k s d w b) = (1 - s + d * (k - 1) + 1) div 2"
  "conv (Conv1dSame_init cin cout k s d w b) =
     \<lparr>cv_in_channels = cin, cv_out_channels = cout, cv_kernel_size = k, cv_stride = s,
      cv_padding = (1 - s + d * (k - 1) + 1) div 2 + 1, cv_dilation = d, cv_weight = w, cv_bias = b\<rparr>"
  unfolding Conv1dSame_init_def ceil_half Let_def by simp_all

lemma has_shape_butlast: "has_shape c (Suc l) y \<Longrightarrow> has_shape c l (map butlast y)"
  by (simp add: has_shape_def list_all_iff)

lemma conv_out_len_stride1:
  assumes k: "1 \<le> k" and d: "1 \<le> d" and n: "d * (k - 1) = n"
  shows "conv_out_len l k 1 ((n + 1) div 2 + 1) d = Some (if odd n then l + 3 else l + 2)"
proof -
  have n0: "0 \<le> n" using k d n by auto
  then have p0: "0 \<le> (n + 1) div 2" by linarith
  have np: "2 * ((n + 1) div 2) = (if odd n then n + 1 else n)" by presburger
  have a: "\<not> (k < 1 \<or> 1 < (1::int) \<or> d < 1 \<or> (n + 1) div 2 + 1 < 0)"
    using k d p0 by linarith
  have b: "\<not> int l + 2 * ((n + 1) div 2 + 1) < n + 1" using np by (simp split: if_splits)
  have c: "nat (int l + 2 * ((n + 1) div 2 + 1) - n - 1 + 1) = (if odd n then l + 3 else l + 2)"
    using np by (simp split: if_splits)
  show ?thesis
    unfolding conv_out_len_def n using a b c by (simp only: if_False div_by_1)
qed

lemma Conv1dSame_stride1_len:
  assumes k: "1 \<le> k" and d: "1 \<le> d"
    and x: "has_shape cin l x" and c: "0 < cin"
  shows "\<exists>y. Conv1dSame_forward (Conv1dSame_init cin cout k 1 d w b) x = Some y \<and>
             has_shape cout (l + 2) y"
proof -
  let ?m = "Conv1dSame_init cin cout k 1 d w b"
  have par: "odd (d * (k - 1)) \<longleftrightarrow> k mod 2 = 0 \<and> d mod 2 = 1"
    by (simp add: even_iff_mod_2_eq_zero odd_iff_mod_2_eq_one) presburger
  have "conv_out_len l (cv_kernel_size (conv ?m)) (cv_stride (conv ?m)) (cv_padding (conv ?m))
          (cv_dilation (conv ?m)) = Some (if odd (d * (k - 1)) then l + 3 else l + 2)"
    using conv_out_len_stride1 [OF k d refl, of l] by (simp add: Conv1dSame_init_sel)
  moreover have "cv_in_channels (conv ?m) = cin" "cv_out_channels (conv ?m) = cout"
    by (simp_all add: Conv1dSame_init_sel)
  ultimately obtain y where y: "conv1d (conv ?m) x = Some y"
      "has_shape cout (if odd (d * (k - 1)) then l + 3 else l + 2) y"
    using conv1d_Some [OF x c, of "conv ?m"] by metis
  have cut: "cut_last_element ?m \<longleftrightarrow> odd (d * (k - 1))"
    unfolding Conv1dSame_init_sel par by simp
  show ?thesis
  proof (cases "odd (d * (k - 1))")
    case True
    have "has_shape cout (l + 3) y" using y(2) True by (simp only: simp_thms if_True if_False)
    moreover have "l + 3 = Suc (l + 2)" by arith
    ultimately have "has_shape cout (Suc (l + 2)) y" by (simp only:)
    then have "has_shape cout (l + 2) (map butlast y)" by (rule has_shape_butlast)
    moreover have "cut_last_element ?m" using cut True by (simp only: simp_thms)
    ultimately show ?thesis using y(1) by (simp add: Conv1dSame_forward_def)
  next
    case False
    have "has_shape cout (l + 2) y" using y(2) False by (simp only: simp_thms if_True if_False)
    moreover have "\<not> cut_last_element ?m" using cut False by (simp only: simp_thms)
    ultimately show ?thesis using y(1) by (simp add: Conv1dSame_forward_def)
  qed
qed

lemma conv_transpose1d_Some:
  assumes "has_shape c l x" and "0 < c" and "ct_in_channels ct = c"
    and "conv_transpose_out_len l (ct_kernel_size ct) (ct_stride ct) (ct_padding ct)
           (ct_output_padding ct) = Some n"
  shows "\<exists>y. conv_transpose1d ct x = Some y \<and> has_shape (ct_out_channels ct) n y"
proof -
  have "time_len x = l" using assms(1,2) by (rule has_shape_time_len)
  moreover have "length x = c" using assms(1) by (simp add: has_shape_def)
  ultimately show ?thesis using assms by (simp add: conv_transpose1d_def)
qed

lemma batch_norm_Some:
  assumes "has_shape c l x" and "bn_num_features bn = c"
  shows "\<exists>y. batch_norm bn x = Some y \<and> has_shape c l y"
  using assms by (simp add: batch_norm_def has_shape_def list_all_iff)

lemma has_shape_relu: "has_shape c l x \<Longrightarrow> has_shape c l (relu x)"
  by (simp add: relu_def has_shape_def list_all_iff)

lemma cat_Some:
  assumes "has_shape c l a" and "has_shape c' l b" and "0 < c" and "0 < c'"
  shows "cat a b = Some (a @ b)" and "has_shape (c + c') l (a @ b)"
proof -
  have "time_len a = l" "time_len b = l" using assms by (simp_all add: has_shape_time_len)
  then show "cat a b = Some (a @ b)" by (simp add: cat_def)
  show "has_shape (c + c') l (a @ b)" using assms(1,2) by (simp add: has_shape_def)
qed

lemma has_shape_softmax: "has_shape c l x \<Longrightarrow> has_shape c l (softmax x)"
proof (cases "c = 0")
  case True
  assume "has_shape c l x"
  with True show ?thesis by (simp add: has_shape_def softmax_def)
next
  case False
  assume h: "has_shape c l x"
  then have "time_len x = l" "length x = c" using False by (simp_all add: has_shape_time_len has_shape_def)
  then show ?thesis by (simp add: softmax_def)
qed

lemma sum_list_exp_pos: "xs \<noteq> [] \<Longrightarrow> 0 < (\<Sum>k\<leftarrow>xs. exp (f k :: real))"
  by (induction xs) (auto intro!: add_pos_nonneg sum_list_nonneg)

lemma softmax_column_sum:
  assumes "has_shape c l z" and "0 < c" and "t < l"
  shows "(\<Sum>r\<leftarrow>softmax z. r ! t) = 1"
proof -
  have tl: "time_len z = l" and lz: "length z = c"
    using assms by (simp_all add: has_shape_time_len has_shape_def)
  let ?S = "\<Sum>k\<leftarrow>[0..<c]. exp (z ! k ! t)"
  have S: "0 < ?S" using assms(2) by (intro sum_list_exp_pos) simp
  have "(\<Sum>r\<leftarrow>softmax z. r ! t) = (\<Sum>k\<leftarrow>[0..<c]. exp (z ! k ! t) / ?S)"
    using assms(3) by (simp add: softmax_def tl lz comp_def)
  also have "\<dots> = (\<Sum>k\<leftarrow>[0..<c]. exp (z ! k ! t) * inverse ?S)"
    by (simp add: divide_inverse)
  also have "\<dots> = ?S * inverse ?S" by (simp only: sum_list_mult_const)
  also have "\<dots> = 1" using S by simp
  finally show ?thesis .
qed

lemma Conv1dSame_k7_s4:
  assumes "has_shape cin l x" and "0 < cin"
    and "conv_out_len l 7 4 3 1 = Some n"
  shows "\<exists>y. Conv1dSame_forward (Conv1dSame_init cin cout 7 4 1 w b) x = Some y \<and> has_shape cout n y"
proof -
  let ?m = "Conv1dSame_init cin cout 7 4 1 w b"
  have "\<not> cut_last_element ?m" by (simp add: Conv1dSame_init_sel)
  moreover have "\<exists>y. conv1d (conv ?m) x = Some y \<and> has_shape (cv_out_channels (conv ?m)) n y"
    using assms by (intro conv1d_Some [of cin l]) (simp_all add: Conv1dSame_init_sel)
  ultimately show ?thesis by (simp add: Conv1dSame_forward_def Conv1dSame_init_sel)
qed

lemma PhaseNet_init_sel:
  "inc (PhaseNet_init cin ncls sd) = nn_Conv1d cin 8 1 sd ''inc''"
  "in_bn (PhaseNet_init cin ncls sd) = nn_BatchNorm1d 8 sd ''in_bn''"
  "conv1 (PhaseNet_init cin ncls sd) = Conv1dSame_init 8 11 7 4 1
     (kernels sd ''conv1.conv.weight'') (vectors sd ''conv1.conv.bias'')"
  "bnd1 (PhaseNet_init cin ncls sd) = nn_BatchNorm1d 11 sd ''bnd1''"
  "conv2 (PhaseNet_init cin ncls sd) = Conv1dSame_init 11 16 7 4 1
     (kernels sd ''conv2.conv.weight'') (vectors sd ''conv2.conv.bias'')"
  "bnd2 (PhaseNet_init cin ncls sd) = nn_BatchNorm1d 16 sd ''bnd2''"
  "conv3 (PhaseNet_init cin ncls sd) = Conv1dSame_init 16 22 7 4 1
     (kernels sd ''conv3.conv.weight'') (vectors sd ''conv3.conv.bias'')"
  "bnd3 (PhaseNet_init cin ncls sd) = nn_BatchNorm1d 22 sd ''bnd3''"
  "conv4 (PhaseNet_init cin ncls sd) = Conv1dSame_init 22 32 7 4 1
     (kernels sd ''conv4.conv.weight'') (vectors sd ''conv4.conv.bias'')"
  "bnd4 (PhaseNet_init cin ncls sd) = nn_BatchNorm1d 32 sd ''bnd4''"
  "up1 (PhaseNet_init cin ncls sd) = nn_ConvTranspose1d 32 22 7 4 2 0 sd ''up1''"
  "bnu1 (PhaseNet_init cin ncls sd) = nn_BatchNorm1d 22 sd ''bnu1''"
  "up2 (PhaseNet_init cin ncls sd) = nn_ConvTranspose1d 44 16 7 4 2 1 sd ''up2''"
  "bnu2 (PhaseNet_init cin ncls sd) = nn_BatchNorm1d 16 sd ''bnu2''"
  "up3 (PhaseNet_init cin ncls sd) = nn_ConvTranspose1d 32 11 7 4 2 0 sd ''up3''"
  "bnu3 (PhaseNet_init cin ncls sd) = nn_BatchNorm1d 11 sd ''bnu3''"
  "up4 (PhaseNet_init cin ncls sd) = nn_ConvTranspose1d 22 8 7 4 3 0 sd ''up4''"
  "bnu4 (PhaseNet_init cin ncls sd) = nn_BatchNorm1d 8 sd ''bnu4''"
  "out (PhaseNet_init cin ncls sd) = nn_ConvTranspose1d 16 ncls 1 1 0 0 sd ''out''"
  by (simp_all add: PhaseNet_init_def Let_def Conv1dSame_init_sel)


lemma bn_relu_Some:
  assumes "has_shape c l a"
  shows "\<exists>b. batch_norm (nn_BatchNorm1d c sd name) a = Some b \<and> has_shape c l (relu b)"
  using batch_norm_Some [OF assms, of "nn_BatchNorm1d c sd name"] has_shape_relu
  by (auto simp: nn_BatchNorm1d_def)

lemma down_stage:
  assumes "has_shape cin l x" and "0 < cin" and "conv_out_len l 7 4 3 1 = Some n"
  shows "\<exists>a b. Conv1dSame_forward (Conv1dSame_init cin cout 7 4 1 w v) x = Some a \<and>
           batch_norm (nn_BatchNorm1d cout sd name) a = Some b \<and> has_shape cout n (relu b)"
proof -
  obtain a where a: "Conv1dSame_forward (Conv1dSame_init cin cout 7 4 1 w v) x = Some a"
      "has_shape cout n a"
    using Conv1dSame_k7_s4 [OF assms] by blast
  with bn_relu_Some [OF a(2)] show ?thesis by blast
qed

lemma up_stage:
  assumes "has_shape cin l x" and "0 < cin" and "0 < cout" and "0 < cs"
    and "conv_transpose_out_len l k s p op = Some n" and "has_shape cs n skip"
  shows "\<exists>a b. conv_transpose1d (nn_ConvTranspose1d cin cout k s p op sd name) x = Some a \<and>
           batch_norm (nn_BatchNorm1d cout sd name') a = Some b \<and>
           cat (relu b) skip = Some (relu b @ skip) \<and> has_shape (cout + cs) n (relu b @ skip)"
proof -
  let ?ct = "nn_ConvTranspose1d cin cout k s p op sd name"
  have "\<exists>a. conv_transpose1d ?ct x = Some a \<and> has_shape (ct_out_channels ?ct) n a"
    using assms(1,2,5) by (intro conv_transpose1d_Some [of cin l]) (simp_all add: nn_ConvTranspose1d_def)
  then obtain a where a: "conv_transpose1d ?ct x = Some a" "has_shape cout n a"
    by (auto simp: nn_ConvTranspose1d_def)
  obtain b where b: "batch_norm (nn_BatchNorm1d cout sd name') a = Some b" "has_shape cout n (relu b)"
    using bn_relu_Some [OF a(2)] by blast
  from cat_Some [OF b(2) assms(6) assms(3,4)] a b show ?thesis by blast
qed

lemma forward_shape:
  assumes x: "has_shape cin 3001 x" and c: "0 < cin"
  shows "\<exists>z. forward (PhaseNet_init cin ncls sd) x = Some (softmax z) \<and> has_shape ncls 3001 z"
proof -
  let ?m = "PhaseNet_init cin ncls sd"
  have "\<exists>a. conv1d (inc ?m) x = Some a \<and> has_shape (cv_out_channels (inc ?m)) 3001 a"
    using x c by (intro conv1d_Some [of cin 3001])
      (simp_all add: PhaseNet_init_sel nn_Conv1d_def conv_out_len_def)
  then obtain a0 where a0: "conv1d (inc ?m) x = Some a0" "has_shape 8 3001 a0"
    by (auto simp: PhaseNet_init_sel nn_Conv1d_def)
  obtain b0 where b0: "batch_norm (in_bn ?m) a0 = Some b0" "has_shape 8 3001 (relu b0)"
    using bn_relu_Some [OF a0(2)] by (auto simp: PhaseNet_init_sel)
  have "\<exists>a b. Conv1dSame_forward (conv1 ?m) (relu b0) = Some a \<and>
          batch_norm (bnd1 ?m) a = Some b \<and> has_shape 11 751 (relu b)"
    unfolding PhaseNet_init_sel by (rule down_stage [OF b0(2)]) (simp_all add: conv_out_len_def)
  then obtain a1 b1 where s1: "Conv1dSame_forward (conv1 ?m) (relu b0) = Some a1"
      "batch_norm (bnd1 ?m) a1 = Some b1" "has_shape 11 751 (relu b1)"
    by blast
  have "\<exists>a b. Conv1dSame_forward (conv2 ?m) (relu b1) = Some a \<and>
          batch_norm (bnd2 ?m) a = Some b \<and> has_shape 16 188 (relu b)"
    unfolding PhaseNet_init_sel by (rule down_stage [OF s1(3)]) (simp_all add: conv_out_len_def)
  then obtain a2 b2 where s2: "Conv1dSame_forward (conv2 ?m) (relu b1) = Some a2"
      "batch_norm (bnd2 ?m) a2 = Some b2" "has_shape 16 188 (relu b2)"
    by blast
  have "\<exists>a b. Conv1dSame_forward (conv3 ?m) (relu b2) = Some a \<and>
          batch_norm (bnd3 ?m) a = Some b \<and> has_shape 22 47 (relu b)"
    unfolding PhaseNet_init_sel by (rule down_stage [OF s2(3)]) (simp_all add: conv_out_len_def)
  then obtain a3 b3 where s3: "Conv1dSame_forward (conv3 ?m) (relu b2) = Some a3"
      "batch_norm (bnd3 ?m) a3 = Some b3" "has_shape 22 47 (relu b3)"
    by blast
  have "\<exists>a b. Conv1dSame_forward (conv4 ?m) (relu b3) = Some a \<and>
          batch_norm (bnd4 ?m) a = Some b \<and> has_shape 32 12 (relu b)"
    unfolding PhaseNet_init_sel by (rule down_stage [OF s3(3)]) (simp_all add: conv_out_len_def)
  then obtain a4 b4 where s4: "Conv1dSame_forward (conv4 ?m) (relu b3) = Some a4"
      "batch_norm (bnd4 ?m) a4 = Some b4" "has_shape 32 12 (relu b4)"
    by blast
  have "\<exists>a b. conv_transpose1d (up1 ?m) (relu b4) = Some a \<and>
          batch_norm (bnu1 ?m) a = Some b \<and>
          cat (relu b) (relu b3) = Some (relu b @ relu b3) \<and>
          has_shape (22 + 22) 47 (relu b @ relu b3)"
    unfolding PhaseNet_init_sel
    by (rule up_stage [OF s4(3) _ _ _ _ s3(3)]) (simp_all add: conv_transpose_out_len_def)
  then obtain a5 b5 where u1: "conv_transpose1d (up1 ?m) (relu b4) = Some a5"
      "batch_norm (bnu1 ?m) a5 = Some b5"
      "cat (relu b5) (relu b3) = Some (relu b5 @ relu b3)"
      "has_shape 44 47 (relu b5 @ relu b3)"
    by auto
  have "\<exists>a b. conv_transpose1d (up2 ?m) (relu b5 @ relu b3) = Some a \<and>
          batch_norm (bnu2 ?m) a = Some b \<and>
          cat (relu b) (relu b2) = Some (relu b @ relu b2) \<and>
          has_shape (16 + 16) 188 (relu b @ relu b2)"
    unfolding PhaseNet_init_sel
    by (rule up_stage [OF u1(4) _ _ _ _ s2(3)]) (simp_all add: conv_transpose_out_len_def)
  then obtain a6 b6 where u2: "conv_transpose1d (up2 ?m) (relu b5 @ relu b3) = Some a6"
      "batch_norm (bnu2 ?m) a6 = Some b6"
      "cat (relu b6) (relu b2) = Some (relu b6 @ relu b2)"
      "has_shape 32 188 (relu b6 @ relu b2)"
    by auto
  have "\<exists>a b. conv_transpose1d (up3 ?m) (relu b6 @ relu b2) = Some a \<and>
          batch_norm (bnu3 ?m) a = Some b \<and>
          cat (relu b) (relu b1) = Some (relu b @ relu b1) \<and>
          has_shape (11 + 11) 751 (relu b @ relu b1)"
    unfolding PhaseNet_init_sel
    by (rule up_stage [OF u2(4) _ _ _ _ s1(3)]) (simp_all add: conv_transpose_out_len_def)
  then obtain a7 b7 where u3: "conv_transpose1d (up3 ?m) (relu b6 @ relu b2) = Some a7"
      "batch_norm (bnu3 ?m) a7 = Some b7"
      "cat (relu b7) (relu b1) = Some (relu b7 @ relu b1)"
      "has_shape 22 751 (relu b7 @ relu b1)"
    by auto
  have "\<exists>a b. conv_transpose1d (up4 ?m) (relu b7 @ relu b1) = Some a \<and>
          batch_norm (bnu4 ?m) a = Some b \<and>
          cat (relu b) (relu b0) = Some (relu b @ relu b0) \<and>
          has_shape (8 + 8) 3001 (relu b @ relu b0)"
    unfolding PhaseNet_init_sel
    by (rule up_stage [OF u3(4) _ _ _ _ b0(2)]) (simp_all add: conv_transpose_out_len_def)
  then obtain a8 b8 where u4: "conv_transpose1d (up4 ?m) (relu b7 @ relu b1) = Some a8"
      "batch_norm (bnu4 ?m) a8 = Some b8"
      "cat (relu b8) (relu b0) = Some (relu b8 @ relu b0)"
      "has_shape 16 3001 (relu b8 @ relu b0)"
    by auto
  have "\<exists>z. conv_transpose1d (out ?m) (relu b8 @ relu b0) = Some z \<and>
          has_shape (ct_out_channels (out ?m)) 3001 z"
    using u4(4) by (intro conv_transpose1d_Some [of 16 3001])
      (simp_all add: PhaseNet_init_sel nn_ConvTranspose1d_def conv_transpose_out_len_def)
  then obtain z where z: "conv_transpose1d (out ?m) (relu b8 @ relu b0) = Some z"
      "has_shape ncls 3001 z"
    by (auto simp: PhaseNet_init_sel nn_ConvTranspose1d_def)
  have "forward ?m x = Some (softmax z)"
    unfolding forward_def
    by (simp only: a0 b0 s1 s2 s3 s4 u1 u2 u3 u4 z bind.bind_lunit Let_def)
  with z(2) show ?thesis by blast
qed

section \<open>The network's output\<close>

lemma softmax_pos:
  assumes "has_shape c l z" and "t < l"
  shows "list_all (\<lambda>r. 0 < r ! t) (softmax z)"
proof (cases "c = 0")
  case True
  with assms show ?thesis by (simp add: has_shape_def softmax_def)
next
  case False
  then have tl: "time_len z = l" and lz: "length z = c"
    using assms by (simp_all add: has_shape_time_len has_shape_def)
  have "0 < (\<Sum>k\<leftarrow>[0..<c]. exp (z ! k ! t))" using False by (intro sum_list_exp_pos) simp
  then show ?thesis using assms(2) by (simp add: softmax_def tl lz list_all_iff)
qed

text \<open>
  C1. For every window of 3001 time samples (and any positive numbers of input channels
  and of classes, 3 and 3 in the reference configuration), with any learned parameters,
  the forward pass
  succeeds and every channel of its output has 3001 time samples: the four strided
  stages take 3001 to 751, 188, 47 and 12 samples, and the four transposed convolutions
  take 12 back to 47, 188, 751 and 3001, so that every skip concatenation is between
  tensors of equal time length.
\<close>

theorem forward_time_length:
  assumes "has_shape cin 3001 x" and "0 < cin" and "0 < ncls"
  shows "\<exists>y. forward (PhaseNet_init cin ncls sd) x = Some y \<and> has_shape ncls 3001 y"
proof -
  obtain z where "forward (PhaseNet_init cin ncls sd) x = Some (softmax z)" "has_shape ncls 3001 z"
    using forward_shape [OF assms(1,2)] by blast
  then show ?thesis using has_shape_softmax by blast
qed

theorem forward_time_length_witness:
  "has_shape 3 3001 (replicate 3 (replicate 3001 0)) \<and> (0::nat) < 3 \<and>
   (\<exists>y. forward (PhaseNet_init 3 3 zero_state) (replicate 3 (replicate 3001 0)) = Some y \<and>
        has_shape 3 3001 y)"
proof -
  have h: "has_shape 3 3001 (replicate 3 (replicate 3001 0))"
    by (simp add: has_shape_def list_all_iff)
  show ?thesis using h forward_time_length [OF h, of 3 zero_state] by simp
qed

text \<open>
  C2. For every window of 3001 time samples, with at least one output class, at every
  time index the values of the forward pass's output along the class axis are positive
  and sum to 1, over the real numbers.
\<close>

theorem forward_class_distribution:
  assumes "has_shape cin 3001 x" and "0 < cin" and "0 < ncls" and "t < 3001"
  shows "\<exists>y. forward (PhaseNet_init cin ncls sd) x = Some y \<and>
             (\<Sum>r\<leftarrow>y. r ! t) = 1 \<and> list_all (\<lambda>r. 0 < r ! t) y"
proof -
  obtain z where z: "forward (PhaseNet_init cin ncls sd) x = Some (softmax z)"
      "has_shape ncls 3001 z"
    using forward_shape [OF assms(1,2)] by blast
  have "(\<Sum>r\<leftarrow>softmax z. r ! t) = 1" using z(2) assms(3,4) by (rule softmax_column_sum)
  moreover have "list_all (\<lambda>r. 0 < r ! t) (softmax z)" using z(2) assms(4) by (rule softmax_pos)
  ultimately show ?thesis using z(1) by simp
qed

theorem forward_class_distribution_witness:
  "has_shape 3 3001 (replicate 3 (replicate 3001 0)) \<and> (0::nat) < 3 \<and> (1500::nat) < 3001 \<and>
   (\<exists>y. forward (PhaseNet_init 3 3 zero_state) (replicate 3 (replicate 3001 0)) = Some y \<and>
        (\<Sum>r\<leftarrow>y. r ! 1500) = 1 \<and> list_all (\<lambda>r. 0 < r ! 1500) y)"
proof -
  have h: "has_shape 3 3001 (replicate 3 (replicate 3001 0))"
    by (simp add: has_shape_def list_all_iff)
  show ?thesis using h forward_class_distribution [OF h, of 3 1500 zero_state] by simp
qed

section \<open>Conv1dSame at stride 1\<close>

text \<open>
  C3. With stride 1 the convolution is built with padding
  \<open>ceil (dilation * (kernel_size - 1) / 2) + 1\<close> on both sides, so its output is two
  samples longer than its input for every kernel size and dilation
  (\<open>Conv1dSame_stride1_len\<close>), not of equal length. At kernel size 7, dilation 1 and a
  kernel that copies its centre tap, five samples come back as seven.
\<close>

theorem Conv1dSame_stride1_example:
  "Conv1dSame_forward (Conv1dSame_init 1 1 7 1 1 [[[0, 0, 0, 1, 0, 0, 0]]] [0]) [[1, 2, 3, 4, 5]]
     = Some [[0, 1, 2, 3, 4, 5, 0]]"
  by (simp add: Conv1dSame_forward_def Conv1dSame_init_sel conv1d_def has_shape_def time_len_def
        conv_out_len_def zero_pad_def upt_rec numeral_eq_Suc nth_append)

text \<open>
  C4. The forward pass of Conv1dSame fails exactly when the convolution fails, and
  otherwise returns the convolution's output with the last time step of every channel
  removed if the kernel size is even, the stride is 1 and the dilation is odd, and
  unchanged in every other case. Kernel size 7 with stride 1 and dilation 1 does not
  trim; kernel size 6 does.
\<close>

theorem Conv1dSame_forward_trim:
  "Conv1dSame_forward (Conv1dSame_init cin cout k s d w b) x =
     (case conv1d (conv (Conv1dSame_init cin cout k s d w b)) x of
        None \<Rightarrow> None
      | Some y \<Rightarrow> Some (if even k \<and> s = 1 \<and> odd d
                        then map (\<lambda>r. take (length r - 1) r) y else y))
   \<and> \<not> cut_last_element (Conv1dSame_init cin cout 7 1 1 w b)
   \<and> cut_last_element (Conv1dSame_init cin cout 6 1 1 w b)"
proof -
  let ?m = "Conv1dSame_init cin cout k s d w b"
  have c: "cut_last_element ?m \<longleftrightarrow> even k \<and> s = 1 \<and> odd d"
    by (simp add: Conv1dSame_init_sel even_iff_mod_2_eq_zero odd_iff_mod_2_eq_one)
  have "Conv1dSame_forward ?m x =
     (case conv1d (conv ?m) x of None \<Rightarrow> None
      | Some y \<Rightarrow> Some (if even k \<and> s = 1 \<and> odd d
                        then map (\<lambda>r. take (length r - 1) r) y else y))"
  proof (cases "cut_last_element ?m")
    case True
    then have "even k \<and> s = 1 \<and> odd d" using c by blast
    with True show ?thesis
      by (cases "conv1d (conv ?m) x") (simp_all add: Conv1dSame_forward_def butlast_conv_take)
  next
    case False
    then have "\<not> (even k \<and> s = 1 \<and> odd d)" using c by blast
    with False show ?thesis
      by (cases "conv1d (conv ?m) x") (auto simp: Conv1dSame_forward_def)
  qed
  then show ?thesis by (simp add: Conv1dSame_init_sel)
qed

section \<open>Window pre- and post-processing: results\<close>

lemma rows_pre: "rows (annotate_window_pre w a) = map channel_norm (rows w)"
  by (simp add: annotate_window_pre_def Let_def channel_norm_def zip_map1 zip_map2
        zip_same_conv_map comp_def)

lemma np_mean_demean:
  assumes "r \<noteq> []"
  shows "np_mean (map (\<lambda>v. v - np_mean r) r) = 0"
proof -
  have "sum_list (map (\<lambda>v. v - c) r) = sum_list r - real (length r) * c" for c
    by (induction r) (simp_all add: algebra_simps)
  then have "sum_list (map (\<lambda>v. v - np_mean r) r) = sum_list r - real (length r) * np_mean r" .
  also have "\<dots> = 0" using assms by (simp add: np_mean_def)
  finally show ?thesis by (simp add: np_mean_def)
qed

lemma np_mean_scale: "np_mean (map (\<lambda>v. v / c) d) = np_mean d / c"
proof -
  have "sum_list (map (\<lambda>v. v / c) d) = sum_list d / c"
    by (induction d) (simp_all add: add_divide_distrib)
  then show ?thesis by (simp add: np_mean_def)
qed

lemma np_std_centred:
  assumes "np_mean d = 0"
  shows "np_std d = sqrt (np_mean (map (\<lambda>v. v\<^sup>2) d))"
  using assms by (simp add: np_std_def)

lemma np_std_scale:
  assumes "np_mean d = 0" and "0 < c"
  shows "np_std (map (\<lambda>v. v / c) d) = np_std d / c"
proof -
  have m: "np_mean (map (\<lambda>v. v / c) d) = 0" using assms(1) by (simp add: np_mean_scale)
  have "np_mean (map (\<lambda>v. v\<^sup>2) (map (\<lambda>v. v / c) d)) = np_mean (map (\<lambda>v. v\<^sup>2 / c\<^sup>2) d)"
    by (simp add: comp_def power_divide)
  also have "\<dots> = np_mean (map (\<lambda>v. v / c\<^sup>2) (map (\<lambda>v. v\<^sup>2) d))"
    by (simp add: comp_def)
  also have "\<dots> = np_mean (map (\<lambda>v. v\<^sup>2) d) / c\<^sup>2" by (rule np_mean_scale)
  finally have "np_std (map (\<lambda>v. v / c) d) = sqrt (np_mean (map (\<lambda>v. v\<^sup>2) d) / c\<^sup>2)"
    by (simp only: np_std_centred [OF m])
  also have "\<dots> = sqrt (np_mean (map (\<lambda>v. v\<^sup>2) d)) / c"
    using assms(2) by (simp add: real_sqrt_divide)
  finally show ?thesis by (simp only: np_std_centred [OF assms(1)])
qed

lemma np_std_nonneg: "0 \<le> np_std d"
  by (auto simp: np_std_def np_mean_def intro!: divide_nonneg_nonneg sum_list_nonneg)

lemma channel_norm_idem: "channel_norm (channel_norm r) = channel_norm r"
proof (cases "r = []")
  case True
  then show ?thesis by (simp add: channel_norm_def)
next
  case False
  define d where "d = map (\<lambda>v. v - np_mean r) r"
  define s where "s = (if np_std d = 0 then 1 else np_std d)"
  have cn: "channel_norm r = map (\<lambda>v. v / s) d"
    by (simp add: channel_norm_def d_def s_def Let_def)
  have md: "np_mean d = 0" unfolding d_def using False by (rule np_mean_demean)
  have s0: "0 < s" using np_std_nonneg [of d] by (simp add: s_def less_le)
  have mean2: "np_mean (map (\<lambda>v. v / s) d) = 0" using md by (simp add: np_mean_scale)
  have d2: "map (\<lambda>v. v - np_mean (map (\<lambda>v. v / s) d)) (map (\<lambda>v. v / s) d) = map (\<lambda>v. v / s) d"
    by (simp add: mean2)
  have std2: "np_std (map (\<lambda>v. v / s) d) = np_std d / s" using md s0 by (rule np_std_scale)
  have "(if np_std d / s = 0 then 1 else np_std d / s) = 1"
    by (simp add: s_def)
  then have "channel_norm (map (\<lambda>v. v / s) d) = map (\<lambda>v. v / s) d"
    unfolding channel_norm_def Let_def d2 std2 by simp
  then show ?thesis by (simp only: cn)
qed

text \<open>
  C10. Over the real numbers the pre-processing is idempotent: applied to its own result
  it returns that result, for every array (of any shape, rows of any lengths).
\<close>

theorem annotate_window_pre_idempotent:
  "annotate_window_pre (annotate_window_pre w a) a' = annotate_window_pre w a"
proof -
  have "rows (annotate_window_pre (annotate_window_pre w a) a') = rows (annotate_window_pre w a)"
    by (simp add: rows_pre channel_norm_idem)
  moreover have "nrows (annotate_window_pre w a) = nrows w" "ncols (annotate_window_pre w a) = ncols w" for w :: ndarray and a :: 'a
    by (simp_all add: annotate_window_pre_def Let_def)
  ultimately show ?thesis by (simp add: annotate_window_pre_def Let_def)
qed




lemma annotate_window_post_involution:
  assumes "wf_ndarray p"
  shows "annotate_window_post (annotate_window_post p a) a' = p"
proof -
  have l: "length (rows p) = nrows p" and r: "\<And>i. i < nrows p \<Longrightarrow> length (rows p ! i) = ncols p"
    using assms by (simp_all add: wf_ndarray_def has_shape_def list_all_iff)
  have "map (\<lambda>j. map (\<lambda>r. r ! j) (map (\<lambda>j. map (\<lambda>r. r ! j) (rows p)) [0..<ncols p])) [0..<nrows p]
        = rows p"
  proof (rule nth_equalityI)
    show "length (map (\<lambda>j. map (\<lambda>r. r ! j) (map (\<lambda>j. map (\<lambda>r. r ! j) (rows p)) [0..<ncols p])) [0..<nrows p])
          = length (rows p)" by (simp add: l)
  next
    fix i assume "i < length (map (\<lambda>j. map (\<lambda>r. r ! j) (map (\<lambda>j. map (\<lambda>r. r ! j) (rows p)) [0..<ncols p])) [0..<nrows p])"
    then have i: "i < nrows p" by simp
    have "map (\<lambda>r. r ! i) (map (\<lambda>j. map (\<lambda>r. r ! j) (rows p)) [0..<ncols p]) = rows p ! i"
      using i l r [OF i] by (intro nth_equalityI) simp_all
    then show "map (\<lambda>j. map (\<lambda>r. r ! j) (map (\<lambda>j. map (\<lambda>r. r ! j) (rows p)) [0..<ncols p])) [0..<nrows p] ! i
               = rows p ! i" using i by simp
  qed
  then show ?thesis by (simp add: annotate_window_post_def)
qed

text \<open>
  C9. The post-processing of a (classes x time) array is its transpose: a (time x
  classes) array whose entry \<open>(i, j)\<close> is entry \<open>(j, i)\<close> of the input, and
  transposing again gives the input back exactly.
\<close>

theorem annotate_window_post_transpose:
  assumes "wf_ndarray p" and "i < ncols p" and "j < nrows p"
  shows "nrows (annotate_window_post p a) = ncols p \<and>
         ncols (annotate_window_post p a) = nrows p \<and>
         wf_ndarray (annotate_window_post p a) \<and>
         rows (annotate_window_post p a) ! i ! j = rows p ! j ! i \<and>
         annotate_window_post (annotate_window_post p a) a' = p"
proof -
  have l: "length (rows p) = nrows p"
    using assms(1) by (simp add: wf_ndarray_def has_shape_def)
  have "wf_ndarray (annotate_window_post p a)"
    using l by (simp add: wf_ndarray_def annotate_window_post_def has_shape_def list_all_iff)
  moreover have "rows (annotate_window_post p a) ! i ! j = rows p ! j ! i"
    using assms(2,3) l by (simp add: annotate_window_post_def)
  ultimately show ?thesis
    using annotate_window_post_involution [OF assms(1)]
    by (simp add: annotate_window_post_def)
qed

theorem annotate_window_post_transpose_witness:
  "wf_ndarray \<lparr>nrows = 2, ncols = 3, rows = [[1, 2, 3], [4, 5, 6]]\<rparr> \<and>
   rows (annotate_window_post \<lparr>nrows = 2, ncols = 3, rows = [[1, 2, 3], [4, 5, 6]]\<rparr> ())
     = [[1, 4], [2, 5], [3, 6]] \<and>
   rows (annotate_window_post \<lparr>nrows = 2, ncols = 3, rows = [[1, 2, 3], [4, 5, 6]]\<rparr> ()) ! 2 ! 1
     = [[1, 2, 3], [4, 5, 6]] ! 1 ! 2 \<and>
   annotate_window_post
     (annotate_window_post \<lparr>nrows = 2, ncols = 3, rows = [[1, 2, 3], [4, 5, 6]]\<rparr> ()) ()
     = \<lparr>nrows = 2, ncols = 3, rows = [[1, 2, 3], [4, 5, 6]]\<rparr>"
proof -
  let ?p = "\<lparr>nrows = 2, ncols = 3, rows = [[1, 2, 3], [4, 5, 6 :: real]]\<rparr>"
  have h: "wf_ndarray ?p" "2 < ncols ?p" "1 < nrows ?p"
    by (simp_all add: wf_ndarray_def has_shape_def)
  have r: "rows (annotate_window_post ?p ()) = [[1, 4], [2, 5], [3, 6]]"
    by (simp add: annotate_window_post_def upt_rec numeral_eq_Suc)
  show ?thesis
    using h(1) r annotate_window_post_transpose [OF h, of "()" "()"] by simp
qed

section \<open>Window pre-processing in the array library's arithmetic: results\<close>




lemma row_demean_Nil [simp]: "row_demean ar r = [] \<longleftrightarrow> r = []"
  by (simp add: row_demean_def)

lemma length_row_demean [simp]: "length (row_demean ar r) = length r"
  by (simp add: row_demean_def)


























section \<open>classify_aggregate: results\<close>

lemma set_py_sorted: "set (py_sorted xs) = set xs"
  by (simp add: py_sorted_def)

lemma onset_loop_char:
  "onset_loop tid tr ph trs =
     (if list_all (\<lambda>q. fst q < length (times tr)) trs
      then Inr (map (\<lambda>q. (tid, utc_add (starttime tr) (times tr ! fst q), ph)) trs)
      else Inl IndexError)"
  by (induction trs) auto

lemma trace_loop_Cons:
  "trace_loop trig thr ph (tr # trs) =
     (if trace_ok trig thr tr
      then (case trace_loop trig thr ph trs of
              Inl e \<Rightarrow> Inl e
            | Inr rest \<Rightarrow> Inr (trace_picks trig thr ph tr @ rest))
      else Inl IndexError)"
  by (simp add: onset_loop_char trace_ok_def trace_picks_def trace_id_of_def Let_def
        split: sum.splits)

lemma trace_loop_char:
  "trace_loop trig thr ph trs =
     (if list_all (trace_ok trig thr) trs
      then Inr (concat (map (trace_picks trig thr ph) trs))
      else Inl IndexError)"
  by (induction trs) (simp_all del: trace_loop.simps add: trace_loop.simps(1) trace_loop_Cons)

lemma phase_loop_Cons:
  "phase_loop M trig anns argdict (ph # labels) =
     (if phase_ok M trig anns argdict ph
      then (case phase_loop M trig anns argdict labels of
              Inl e \<Rightarrow> Inl e
            | Inr rest \<Rightarrow> Inr (phase_picks M trig anns argdict ph @ rest))
      else Inl IndexError)"
  by (simp add: trace_loop_char phase_ok_def phase_picks_def split: sum.splits)

lemma phase_loop_char:
  "phase_loop M trig anns argdict labels =
     (if list_all (phase_ok M trig anns argdict) labels
      then Inr (concat (map (phase_picks M trig anns argdict) labels))
      else Inl IndexError)"
  by (induction labels) (simp_all del: phase_loop.simps add: phase_loop.simps(1) phase_loop_Cons)

lemma classify_aggregate_char:
  "classify_aggregate labels M trig anns argdict =
     (if list_all (phase_ok M trig anns argdict) labels
      then Inr (py_sorted (concat (map (phase_picks M trig anns argdict) labels)))
      else Inl IndexError)"
  by (simp add: classify_aggregate_def phase_loop_char)

lemma phase_picks_phase:
  "p \<in> set (phase_picks M trig anns argdict ph) \<Longrightarrow> snd (snd p) = ph \<and> ph \<noteq> ''N''"
  by (auto simp: phase_picks_def trace_picks_def split: if_splits)

text \<open>
  C5. Whenever classify_aggregate returns a list of picks, for any labels, traces,
  thresholds, trigger primitive and channel matching, no pick in it has the phase label
  "N"; every pick's phase is one of the model's labels.
\<close>

theorem classify_aggregate_no_noise:
  assumes "classify_aggregate labels M trig anns argdict = Inr picks"
  shows "list_all (\<lambda>p. snd (snd p) \<noteq> ''N'' \<and> snd (snd p) \<in> set labels) picks"
proof -
  have "picks = py_sorted (concat (map (phase_picks M trig anns argdict) labels))"
    using assms by (simp add: classify_aggregate_char split: if_splits)
  then have "set picks = (\<Union>ph\<in>set labels. set (phase_picks M trig anns argdict ph))"
    by (simp add: set_py_sorted)
  then show ?thesis using phase_picks_phase by (fastforce simp: list_all_iff)
qed

lemma mset_py_sorted: "mset (py_sorted xs) = mset xs"
  by (simp add: py_sorted_def)

lemma map_insort_key: "map f (insort_key f x xs) = insort (f x) (map f xs)"
  by (induction xs) simp_all

lemma map_sort_key: "map f (sort_key f xs) = sort (map f xs)"
  by (induction xs) (simp_all add: map_insort_key)

lemma keys_py_sorted: "map pick_key (py_sorted xs) = sort (map pick_key xs)"
  by (simp add: py_sorted_def map_sort_key)

lemma pick_key_le_iff:
  "pick_key p \<le> pick_key q \<longleftrightarrow>
     (case p of (i1, t1, p1) \<Rightarrow> case q of (i2, t2, p2) \<Rightarrow>
        i1 < i2 \<or> i1 = i2 \<and> (utc_key t1 < utc_key t2 \<or> utc_key t1 = utc_key t2 \<and> p1 \<le> p2))"
  by (auto simp: pick_key_def less_eq_prod_def split: prod.splits)

lemma sorted_py_sorted:
  "sorted_wrt (\<lambda>(i1, t1, p1) (i2, t2, p2).
       i1 < i2 \<or> i1 = i2 \<and> (utc_key t1 < utc_key t2 \<or> utc_key t1 = utc_key t2 \<and> p1 \<le> p2))
     (py_sorted xs)"
proof -
  have "sorted (map pick_key (py_sorted xs))" by (simp add: py_sorted_def)
  then have "sorted_wrt (\<lambda>p q. pick_key p \<le> pick_key q) (py_sorted xs)"
    by (simp add: sorted_map)
  then show ?thesis
    by (rule sorted_wrt_mono_rel [rotated]) (auto simp: pick_key_le_iff)
qed

lemma select_mset: "mset anns' = mset anns \<Longrightarrow> mset (select M pat anns') = mset (select M pat anns)"
  by (simp add: select_def)

lemma mset_concat_map: "mset (concat (map f xs)) = (\<Sum>x\<in>#mset xs. mset (f x))"
  by (induction xs) simp_all

lemma phase_picks_perm:
  assumes "mset anns' = mset anns"
  shows "mset (phase_picks M trig anns' argdict ph) = mset (phase_picks M trig anns argdict ph)"
  by (simp add: phase_picks_def mset_concat_map select_mset [OF assms])

lemma phase_ok_perm:
  assumes "mset anns' = mset anns"
  shows "phase_ok M trig anns' argdict ph = phase_ok M trig anns argdict ph"
proof -
  have "set (select M pat anns') = set (select M pat anns)" for pat
    using select_mset [OF assms, of M pat] by (rule mset_eq_setD)
  then show ?thesis by (simp add: phase_ok_def list_all_iff)
qed

lemma classify_aggregate_perm:
  assumes l: "mset labels' = mset labels" and a: "mset anns' = mset anns"
    and r: "classify_aggregate labels M trig anns argdict = Inr picks"
  shows "\<exists>picks'. classify_aggregate labels' M trig anns' argdict = Inr picks' \<and>
           mset picks' = mset picks \<and> map pick_key picks' = map pick_key picks"
proof -
  let ?c = "concat (map (phase_picks M trig anns argdict) labels)"
  let ?c' = "concat (map (phase_picks M trig anns' argdict) labels')"
  have s: "set labels' = set labels" using l by (rule mset_eq_setD)
  have ok: "list_all (phase_ok M trig anns' argdict) labels' = list_all (phase_ok M trig anns argdict) labels"
    by (simp add: list_all_iff s phase_ok_perm [OF a])
  have p: "picks = py_sorted ?c" and ok1: "list_all (phase_ok M trig anns argdict) labels"
    using r by (simp_all add: classify_aggregate_char split: if_splits)
  have m: "mset ?c' = mset ?c"
    by (simp add: mset_concat_map l phase_picks_perm [OF a])
  have "mset (map pick_key ?c') = mset (map pick_key ?c)" using m by (metis mset_map)
  then have "sort (map pick_key ?c') = sort (map pick_key ?c)"
    by (metis sorted_list_of_multiset_mset)
  then have k: "map pick_key (py_sorted ?c') = map pick_key (py_sorted ?c)"
    by (simp add: keys_py_sorted)
  have "classify_aggregate labels' M trig anns' argdict = Inr (py_sorted ?c')"
    using ok ok1 by (simp add: classify_aggregate_char)
  then show ?thesis using m k p by (simp add: mset_py_sorted)
qed

text \<open>
  C6. The list classify_aggregate returns holds exactly the picks collected over all
  phases and traces and is sorted by trace identity, then onset time as time stamps
  compare (rounded to whole microseconds), then phase label; picks equal in all three
  keep the order in which they were collected. When the labels or the annotation traces
  are supplied in any other order, the result holds the same picks with the same
  sequence of (trace identity, rounded onset time, phase) keys, and is the same list when
  no two different picks agree on that key.
\<close>

theorem classify_aggregate_sorted:
  assumes "classify_aggregate labels M trig anns argdict = Inr picks"
  shows "sorted_wrt (\<lambda>(i1, t1, p1) (i2, t2, p2).
            i1 < i2 \<or> i1 = i2 \<and> (utc_key t1 < utc_key t2 \<or> utc_key t1 = utc_key t2 \<and> p1 \<le> p2))
          picks
       \<and> (\<exists>collected. phase_loop M trig anns argdict labels = Inr collected \<and>
             mset picks = mset collected \<and>
             (\<forall>k. filter (\<lambda>p. pick_key p = k) picks = filter (\<lambda>p. pick_key p = k) collected))
       \<and> (\<forall>labels' anns'. mset labels' = mset labels \<and> mset anns' = mset anns \<longrightarrow>
             (\<exists>picks'. classify_aggregate labels' M trig anns' argdict = Inr picks' \<and>
                mset picks' = mset picks \<and> map pick_key picks' = map pick_key picks \<and>
                (inj_on pick_key (set picks) \<longrightarrow> picks' = picks)))"
proof -
  obtain collected where c: "phase_loop M trig anns argdict labels = Inr collected"
      "picks = py_sorted collected"
    using assms by (auto simp: classify_aggregate_def split: sum.splits)
  have 1: "sorted_wrt (\<lambda>(i1, t1, p1) (i2, t2, p2).
            i1 < i2 \<or> i1 = i2 \<and> (utc_key t1 < utc_key t2 \<or> utc_key t1 = utc_key t2 \<and> p1 \<le> p2))
          picks"
    unfolding c(2) by (rule sorted_py_sorted)
  have 2: "mset picks = mset collected" using c(2) by (simp add: mset_py_sorted)
  have 3: "\<forall>k. filter (\<lambda>p. pick_key p = k) picks = filter (\<lambda>p. pick_key p = k) collected"
    using c(2) by (simp add: py_sorted_def sort_key_stable)
  have 4: "\<exists>picks'. classify_aggregate labels' M trig anns' argdict = Inr picks' \<and>
                mset picks' = mset picks \<and> map pick_key picks' = map pick_key picks \<and>
                (inj_on pick_key (set picks) \<longrightarrow> picks' = picks)"
    if "mset labels' = mset labels \<and> mset anns' = mset anns" for labels' anns'
  proof -
    from that have l: "mset labels' = mset labels" and a: "mset anns' = mset anns"
      by simp_all
    obtain picks' where p: "classify_aggregate labels' M trig anns' argdict = Inr picks'"
        "mset picks' = mset picks" "map pick_key picks' = map pick_key picks"
      using classify_aggregate_perm [OF l a assms] by blast
    have "set picks' = set picks" using p(2) by (rule mset_eq_setD)
    then have "inj_on pick_key (set picks) \<longrightarrow> picks' = picks"
      using p(3) by (auto simp: inj_on_map_eq_map)
    with p show ?thesis by blast
  qed
  from 1 2 3 4 c(1) show ?thesis by blast
qed

lemma close_picks:
  "classify_aggregate [''N'', ''P'', ''S''] (=) first_above close_annotations Map.empty
     = Inr [(''NN.STA.'', 5000000200, ''P''), (''NN.STA.'', 5000000100, ''S'')]"
  by (simp add: classify_aggregate_def select_def pick_threshold_def first_above_def
        close_annotations_def py_sorted_def pick_key_def utc_add_def utc_key_def py_round_def
        less_eq_prod_def less_prod_def Let_def)

theorem classify_aggregate_sorted_counterexample:
  "classify_aggregate [''N'', ''P'', ''S''] (=) first_above close_annotations Map.empty
     = Inr [(''NN.STA.'', 5000000200, ''P''), (''NN.STA.'', 5000000100, ''S'')] \<and>
   \<not> sorted_wrt (\<lambda>(i1, t1, p1) (i2, t2, p2).
         i1 < i2 \<or> i1 = i2 \<and> (t1 < t2 \<or> t1 = t2 \<and> p1 \<le> p2))
       [(''NN.STA.'', 5000000200 :: int, ''P''), (''NN.STA.'', 5000000100, ''S'')]"
  using close_picks by simp

lemma trace_loop_cong:
  assumes "\<And>d. trig d thr (thr / 2) = trig' d thr (thr / 2)"
  shows "trace_loop trig thr ph trs = trace_loop trig' thr ph trs"
  by (induction trs) (simp_all add: assms Let_def cong: sum.case_cong)

lemma phase_loop_cong:
  assumes "\<And>phase d. phase \<in> set labels \<Longrightarrow> phase \<noteq> ''N'' \<Longrightarrow>
             trig d (pick_threshold argdict phase) (pick_threshold argdict phase / 2)
             = trig' d (pick_threshold argdict phase) (pick_threshold argdict phase / 2)"
  shows "phase_loop M trig anns argdict labels = phase_loop M trig' anns argdict labels"
  using assms
proof (induction labels)
  case Nil
  then show ?case by simp
next
  case (Cons ph labels)
  have r: "phase_loop M trig anns argdict labels = phase_loop M trig' anns argdict labels"
    using Cons.prems by (intro Cons.IH) simp_all
  show ?case
  proof (cases "ph = ''N''")
    case True
    with r show ?thesis by simp
  next
    case False
    have "trace_loop trig (pick_threshold argdict ph) ph trs
          = trace_loop trig' (pick_threshold argdict ph) ph trs" for trs
      using Cons.prems [of ph] False by (intro trace_loop_cong) simp
    with r False show ?thesis by (simp cong: sum.case_cong)
  qed
qed

text \<open>
  C7. The trigger-on threshold of a phase is the configuration's value at key
  "<phase>_threshold", and 0.3 when the key is absent. The result of classify_aggregate
  depends on the trigger-onset primitive only through its values at a trigger-on
  threshold so resolved for a non-noise label, paired with a trigger-off threshold of
  exactly half of it; for one phase and one matching trace the picks are those of the
  onsets the primitive returns at that pair. With no threshold given for "P" the pair is
  (0.3, 0.15).
\<close>

theorem classify_aggregate_thresholds:
  "((\<forall>phase d. phase \<in> set labels \<and> phase \<noteq> ''N'' \<longrightarrow>
        trig d (pick_threshold argdict phase) (pick_threshold argdict phase / 2)
        = trig' d (pick_threshold argdict phase) (pick_threshold argdict phase / 2)) \<longrightarrow>
     classify_aggregate labels M trig anns argdict = classify_aggregate labels M trig' anns argdict)
   \<and> (ph \<noteq> ''N'' \<and> M (channel tr) (''PhaseNet_'' @ ph) \<longrightarrow>
        classify_aggregate [ph] M trig [tr] argdict =
          (case onset_loop (network tr @ ''.'' @ station tr @ ''.'' @ location tr) tr ph
                  (trig (data tr) (pick_threshold argdict ph) (pick_threshold argdict ph / 2)) of
             Inl e \<Rightarrow> Inl e | Inr ps \<Rightarrow> Inr (py_sorted ps)))
   \<and> (argdict (ph @ ''_threshold'') = None \<longrightarrow> pick_threshold argdict ph = 3 / 10)
   \<and> (argdict (ph @ ''_threshold'') = Some v \<longrightarrow> pick_threshold argdict ph = v)
   \<and> (argdict ''P_threshold'' = None \<longrightarrow>
        pick_threshold argdict ''P'' = 3 / 10 \<and> pick_threshold argdict ''P'' / 2 = 15 / 100)"
proof -
  have a: "(\<forall>phase d. phase \<in> set labels \<and> phase \<noteq> ''N'' \<longrightarrow>
        trig d (pick_threshold argdict phase) (pick_threshold argdict phase / 2)
        = trig' d (pick_threshold argdict phase) (pick_threshold argdict phase / 2)) \<longrightarrow>
     classify_aggregate labels M trig anns argdict = classify_aggregate labels M trig' anns argdict"
    using phase_loop_cong [of labels trig argdict trig' M anns]
    by (simp add: classify_aggregate_def)
  have b: "ph \<noteq> ''N'' \<and> M (channel tr) (''PhaseNet_'' @ ph) \<longrightarrow>
        classify_aggregate [ph] M trig [tr] argdict =
          (case onset_loop (network tr @ ''.'' @ station tr @ ''.'' @ location tr) tr ph
                  (trig (data tr) (pick_threshold argdict ph) (pick_threshold argdict ph / 2)) of
             Inl e \<Rightarrow> Inl e | Inr ps \<Rightarrow> Inr (py_sorted ps))"
    by (simp add: classify_aggregate_def select_def Let_def split: sum.splits)
  have c: "argdict (ph @ ''_threshold'') = None \<longrightarrow> pick_threshold argdict ph = 3 / 10"
    "argdict (ph @ ''_threshold'') = Some v \<longrightarrow> pick_threshold argdict ph = v"
    "argdict ''P_threshold'' = None \<longrightarrow>
        pick_threshold argdict ''P'' = 3 / 10 \<and> pick_threshold argdict ''P'' / 2 = 15 / 100"
    by (simp_all add: pick_threshold_def)
  from a b c show ?thesis by blast
qed


lemma example_picks:
  "classify_aggregate [''N'', ''P'', ''S''] (=) first_above example_annotations Map.empty
     = Inr [(''NN.STA.'', 5000000000, ''P''), (''NN.STA.'', 7000000000, ''S'')]"
  by (simp add: classify_aggregate_def select_def pick_threshold_def first_above_def
        example_annotations_def py_sorted_def pick_key_def utc_add_def utc_key_def py_round_def
        less_eq_prod_def less_prod_def Let_def)

theorem classify_aggregate_no_noise_witness:
  "classify_aggregate [''N'', ''P'', ''S''] (=) first_above example_annotations Map.empty
     = Inr [(''NN.STA.'', 5000000000, ''P''), (''NN.STA.'', 7000000000, ''S'')] \<and>
   list_all (\<lambda>p. snd (snd p) \<noteq> ''N'' \<and> snd (snd p) \<in> set [''N'', ''P'', ''S''])
     [(''NN.STA.'', 5000000000 :: int, ''P''), (''NN.STA.'', 7000000000, ''S'')]"
  using example_picks classify_aggregate_no_noise [OF example_picks] by simp

theorem classify_aggregate_sorted_witness:
  "classify_aggregate [''N'', ''P'', ''S''] (=) first_above example_annotations Map.empty
     = Inr [(''NN.STA.'', 5000000000, ''P''), (''NN.STA.'', 7000000000, ''S'')] \<and>
   classify_aggregate [''S'', ''P'', ''N''] (=) first_above (rev example_annotations) Map.empty
     = Inr [(''NN.STA.'', 5000000000, ''P''), (''NN.STA.'', 7000000000, ''S'')]"
proof -
  let ?picks = "[(''NN.STA.'', 5000000000 :: int, ''P''), (''NN.STA.'', 7000000000, ''S'')]"
  have "\<forall>labels' anns'. mset labels' = mset [''N'', ''P'', ''S''] \<and>
            mset anns' = mset example_annotations \<longrightarrow>
          (\<exists>picks'. classify_aggregate labels' (=) first_above anns' Map.empty = Inr picks' \<and>
             (inj_on pick_key (set ?picks) \<longrightarrow> picks' = ?picks))"
    using classify_aggregate_sorted [OF example_picks] by blast
  moreover have "mset [''S'', ''P'', ''N''] = mset [''N'', ''P'', ''S'']" by simp
  moreover have "mset (rev example_annotations) = mset example_annotations" by simp
  moreover have "inj_on pick_key (set ?picks)" by (simp add: pick_key_def)
  ultimately have "classify_aggregate [''S'', ''P'', ''N''] (=) first_above
      (rev example_annotations) Map.empty = Inr ?picks"
    by blast
  then show ?thesis using example_picks by simp
qed

theorem classify_aggregate_thresholds_witness:
  "classify_aggregate [''N'', ''P'', ''S''] (=)
     (\<lambda>d on off. if off * 2 = on then first_above d on off else [(7, 7)])
     example_annotations Map.empty
     = Inr [(''NN.STA.'', 5000000000, ''P''), (''NN.STA.'', 7000000000, ''S'')] \<and>
   pick_threshold Map.empty ''P'' = 3 / 10 \<and> pick_threshold Map.empty ''P'' / 2 = 15 / 100"
proof -
  let ?trig' = "\<lambda>d on off :: real. if off * 2 = on then first_above d on off else [(7, 7)]"
  note t = classify_aggregate_thresholds [of "[''N'', ''P'', ''S'']" first_above Map.empty ?trig'
      "(=)" example_annotations "''P''" "hd example_annotations" 0]
  have "classify_aggregate [''N'', ''P'', ''S''] (=) first_above example_annotations Map.empty
        = classify_aggregate [''N'', ''P'', ''S''] (=) ?trig' example_annotations Map.empty"
    using t by simp
  moreover have "pick_threshold Map.empty ''P'' = 3 / 10 \<and> pick_threshold Map.empty ''P'' / 2 = 15 / 100"
    using t by simp
  ultimately show ?thesis using example_picks by simp
qed

end
